theory Spec2Isabelle
  imports Main
begin

section \<open>Shape specs of \<open>pretty_tensor_methods.py\<close>\<close>

text \<open>
  The shape of a tensor, as \<open>get_shape().as_list()\<close> and \<open>input_layer.shape\<close> give it: a
  list whose entries are a non-negative size or Python's \<open>None\<close> for a dimension that is
  not known statically (\<open>fully_connected\<close> tests \<open>input_layer.shape[1] is None\<close>).
\<close>

type_synonym shape = "nat option list"

text \<open>
  An entry of a shape spec. \<open>DIM_SAME\<close> and \<open>DIM_REST\<close> are the two marker constants that
  the module imports from \<open>pretty_tensor_class\<close>; all the code does with them is compare
  entries against them, so they are two constructors, distinct from each other, from
  \<open>None\<close> and from every integer. \<open>PyInt x\<close> is an entry that \<open>int(s)\<close> reads as \<open>x\<close>.
  The lists that \<open>_infer_unknown_dims\<close> returns hold the same kind of entries.
\<close>

datatype spec_elem = DIM_SAME | DIM_REST | PyNone | PyInt int

text \<open>
  A shape spec is a Python sequence, "a list or tuple" by the documentation of \<open>reshape\<close>.
  The functions take it as its type and the list of its items: the items are all that the
  loop reads, and the type decides what \<open>'...%s' % shape_spec\<close> does. A spec in the compact
  string syntax is formatted like a list.
\<close>

datatype seq_type = PyList | PyTuple

text \<open>
  The exceptions the modelled functions can raise. A \<open>ValueError\<close> carries which of the
  source's messages it was raised with.
\<close>

datatype value_error =
    ExceedsInputShape nat    \<comment> \<open>\<open>'%d exceeds the input shape' % i\<close>\<close>
  | OnlyOneUnknown           \<comment> \<open>\<open>'Only one unknown value (-1 or *) is allowed: %s'\<close>\<close>
  | CannotReshape            \<comment> \<open>\<open>'Input (%s) cannot be reshaped to %s.'\<close>\<close>
  | InvalidLiteral           \<comment> \<open>\<open>int(s)\<close> on a string that is not a number\<close>
  | SplitDimOutOfBounds      \<comment> \<open>\<open>'split_dim out of bounds: %d  %s'\<close>\<close>
  | FailureToSplit           \<comment> \<open>\<open>'Failure to split %s tensor at split_dim=%d ...'\<close>\<close>

datatype error =
  ValueError value_error | ZeroDivisionError | TypeError | IndexError | OverflowError

fun is_ValueError :: "error \<Rightarrow> bool" where
  "is_ValueError (ValueError v) = True"
| "is_ValueError e = False"

subsection \<open>\<open>_infer_unknown_dims\<close>\<close>

text \<open>Python's truth value of a shape entry: \<open>None\<close> and \<open>0\<close> are false.\<close>

fun truthy :: "nat option \<Rightarrow> bool" where
  "truthy None = False"
| "truthy (Some d) = (d \<noteq> 0)"

text \<open>\<open>[x if x else 0 for x in old_shape]\<close>\<close>

definition initial_numerator_elements :: "shape \<Rightarrow> int list" where
  "initial_numerator_elements old_shape =
     map (\<lambda>x. if truthy x then int (the x) else 0) old_shape"

text \<open>
  \<open>int(s)\<close> on a spec entry. The loop reaches it only for entries that are neither
  \<open>DIM_SAME\<close> nor one of \<open>DIM_REST\<close>, \<open>-1\<close>, \<open>None\<close>; the other equations say what Python
  would raise (the markers are strings, \<open>int(None)\<close> is a \<open>TypeError\<close>).
\<close>

fun py_int :: "spec_elem \<Rightarrow> error + int" where
  "py_int (PyInt x) = Inr x"
| "py_int PyNone = Inl TypeError"
| "py_int DIM_SAME = Inl (ValueError InvalidLiteral)"
| "py_int DIM_REST = Inl (ValueError InvalidLiteral)"

text \<open>The local variables that the first loop of \<open>_infer_unknown_dims\<close> updates.\<close>

record loop_state =
  numerator_elements :: "int list"
  denominator :: int
  unknowns :: nat
  result :: "spec_elem list"

definition initial_state :: "shape \<Rightarrow> loop_state" where
  "initial_state old_shape =
     \<lparr>numerator_elements = initial_numerator_elements old_shape,
      denominator = 1, unknowns = 0, result = []\<rparr>"

text \<open>
  \<open>for i, s in enumerate(shape_spec)\<close>: the loop from index \<open>i\<close> on, over the entries
  that are left. A \<open>raise\<close> ends it with \<open>Inl\<close>. The assignment
  \<open>numerator_elements[i] = 1\<close> is in range, since \<open>i < len(old_shape)\<close> there.
\<close>

fun infer_loop :: "shape \<Rightarrow> nat \<Rightarrow> spec_elem list \<Rightarrow> loop_state \<Rightarrow> error + loop_state" where
  "infer_loop old_shape i [] st = Inr st"
| "infer_loop old_shape i (s # rest) st =
     (if s = DIM_SAME then
        (if i \<ge> length old_shape then Inl (ValueError (ExceedsInputShape i))
         else infer_loop old_shape (Suc i) rest
                (st\<lparr>result := result st @
                       [case old_shape ! i of None \<Rightarrow> DIM_SAME | Some d \<Rightarrow> PyInt (int d)],
                    numerator_elements := (numerator_elements st)[i := 1]\<rparr>))
      else if s \<in> {DIM_REST, PyInt (- 1), PyNone} then
        infer_loop old_shape (Suc i) rest
          (st\<lparr>result := result st @ [PyInt (- 1)], unknowns := unknowns st + 1\<rparr>)
      else
        (case py_int s of
           Inl e \<Rightarrow> Inl e
         | Inr x \<Rightarrow>
             infer_loop old_shape (Suc i) rest
               (st\<lparr>result := result st @ [PyInt x], denominator := denominator st * x\<rparr>)))"

text \<open>\<open>numerator = 1; for x in numerator_elements: numerator *= x\<close>\<close>

definition numerator_of :: "int list \<Rightarrow> int" where
  "numerator_of elements = fold (\<lambda>x numerator. numerator * x) elements 1"

text \<open>
  \<open>'Only one unknown value (-1 or *) is allowed: %s' % shape_spec\<close>: when the right
  operand of \<open>%\<close> is a tuple it is the tuple of the arguments, and the one \<open>%s\<close> wants exactly
  one of them, otherwise Python raises \<open>TypeError\<close>; any other object is the single
  argument. The text of the message is not modelled.
\<close>

definition format_spec :: "seq_type \<Rightarrow> spec_elem list \<Rightarrow> error + unit" where
  "format_spec spec_type shape_spec =
     (if spec_type = PyTuple \<and> length shape_spec \<noteq> 1 then Inl TypeError else Inr ())"

text \<open>
  \<open>int(numerator / denominator)\<close>: the module imports \<open>division\<close> from \<open>__future__\<close>, so
  \<open>/\<close> is the true division, whose result is the float nearest to the quotient (ties to
  the even significand), or \<open>OverflowError\<close> when that is beyond the range of a float. The
  call is reached only after the check \<open>numerator % denominator == 0\<close> with a nonzero
  divisor, so the quotient is the integer \<open>numerator div denominator\<close>, and \<open>int\<close> of the
  float is that integer rounded to 53 significant bits. \<open>bit_length\<close> is the number of bits
  of a natural number.
\<close>

fun bit_length :: "nat \<Rightarrow> nat" where
  "bit_length n = (if n = 0 then 0 else Suc (bit_length (n div 2)))"

definition round_to_double :: "int \<Rightarrow> error + int" where
  "round_to_double q =
     (let a = nat \<bar>q\<bar>;
          e = bit_length a - 53;
          m = a div 2 ^ e;
          r = a mod 2 ^ e;
          m' = (if 2 * r > 2 ^ e \<or> (2 * r = 2 ^ e \<and> odd m) then m + 1 else m);
          v = m' * 2 ^ e
      in if v \<ge> 2 ^ 1024 then Inl OverflowError else Inr (sgn q * int v))"

definition int_true_div :: "int \<Rightarrow> int \<Rightarrow> error + int" where
  "int_true_div n d = round_to_double (n div d)"

text \<open>
  The checks and the return after the loops. Python's \<open>%\<close> raises \<open>ZeroDivisionError\<close> on a
  zero divisor and otherwise takes the sign of the divisor, as \<open>mod\<close> on \<open>int\<close> does. The
  message of the first \<open>raise\<close> is formatted before the \<open>ValueError\<close> is made, so a failure
  of the formatting is what is raised; the messages of the other two are formatted from
  an explicit pair.
\<close>

definition finish :: "seq_type \<Rightarrow> spec_elem list \<Rightarrow> loop_state \<Rightarrow> error + spec_elem list" where
  "finish spec_type shape_spec st =
     (let numerator = numerator_of (numerator_elements st) in
      if unknowns st > 1 then
        (case format_spec spec_type shape_spec of
           Inl e \<Rightarrow> Inl e
         | Inr _ \<Rightarrow> Inl (ValueError OnlyOneUnknown))
      else if denominator st = 0 then Inl ZeroDivisionError
      else if numerator mod denominator st \<noteq> 0 then Inl (ValueError CannotReshape)
      else if unknowns st = 0 \<and> numerator > 0 \<and> numerator \<noteq> denominator st
        then Inl (ValueError CannotReshape)
      else if numerator \<noteq> 0 \<and> unknowns st \<noteq> 0 then
        (case int_true_div numerator (denominator st) of
           Inl e \<Rightarrow> Inl e
         | Inr unknown_elements \<Rightarrow>
             Inr (map (\<lambda>x. if x = PyInt (- 1) then PyInt unknown_elements else x) (result st)))
      else Inr (result st))"

definition infer_unknown_dims ::
  "shape \<Rightarrow> seq_type \<Rightarrow> spec_elem list \<Rightarrow> error + spec_elem list" where
  "infer_unknown_dims old_shape spec_type shape_spec =
     (case infer_loop old_shape 0 shape_spec (initial_state old_shape) of
        Inl e \<Rightarrow> Inl e
      | Inr st \<Rightarrow> finish spec_type shape_spec st)"

text \<open>
  The value of the local variable \<open>numerator\<close> after the second loop, when the first loop
  has not raised.
\<close>

definition loop_numerator :: "shape \<Rightarrow> spec_elem list \<Rightarrow> error + int" where
  "loop_numerator old_shape shape_spec =
     (case infer_loop old_shape 0 shape_spec (initial_state old_shape) of
        Inl e \<Rightarrow> Inl e
      | Inr st \<Rightarrow> Inr (numerator_of (numerator_elements st)))"

subsection \<open>\<open>reshape\<close>: the static shape and the pieces of the shape tensor\<close>

text \<open>
  \<open>reshape\<close> walks the inferred list. Where it holds \<open>DIM_SAME\<close> the size is read from the
  graph (\<open>tf.gather(tf.shape(input_layer), [i])\<close>) and the static entry becomes \<open>None\<close>;
  the other entries are collected into runs, each of which becomes one \<open>tf.constant\<close>, and
  a \<open>-1\<close> among them also makes the static entry \<open>None\<close>. The calls into TensorFlow are
  kept as data.
\<close>

datatype shape_piece = TfConstant "spec_elem list" | TfGatherShape nat

record reshape_state =
  new_shape :: "spec_elem list"
  reshape_tensor :: "shape_piece list"
  runner :: "spec_elem list"

fun reshape_loop :: "nat \<Rightarrow> spec_elem list \<Rightarrow> reshape_state \<Rightarrow> reshape_state" where
  "reshape_loop i [] st = st"
| "reshape_loop i (s # rest) st =
     (if s = DIM_SAME then
        reshape_loop (Suc i) rest
          \<lparr>new_shape = (new_shape st)[i := PyNone],
           reshape_tensor =
             (if runner st \<noteq> [] then reshape_tensor st @ [TfConstant (runner st)]
              else reshape_tensor st) @ [TfGatherShape i],
           runner = []\<rparr>
      else
        reshape_loop (Suc i) rest
          \<lparr>new_shape = (if s = PyInt (- 1) then (new_shape st)[i := PyNone] else new_shape st),
           reshape_tensor = reshape_tensor st,
           runner = runner st @ [s]\<rparr>)"

text \<open>
  What \<open>reshape\<close> does for a spec that is a sequence. A \<open>TypeError\<close> out of
  \<open>_infer_unknown_dims\<close> is caught and answered with \<open>tf.reshape(input_layer, shape_spec)\<close>
  on the spec as it was given; otherwise the result carries the pieces handed to
  \<open>tf.reshape\<close> and the shape given to \<open>set_shape\<close>.
\<close>

datatype reshape_result =
    TfReshapeSpec seq_type "spec_elem list"
  | Reshaped "shape_piece list" "spec_elem list"

definition reshape :: "shape \<Rightarrow> seq_type \<Rightarrow> spec_elem list \<Rightarrow> error + reshape_result" where
  "reshape old_shape spec_type shape_spec =
     (case infer_unknown_dims old_shape spec_type shape_spec of
        Inl e \<Rightarrow> (if e = TypeError then Inr (TfReshapeSpec spec_type shape_spec) else Inl e)
      | Inr inferred \<Rightarrow>
          (let st = reshape_loop 0 inferred
                      \<lparr>new_shape = inferred, reshape_tensor = [], runner = []\<rparr>;
               pieces = (if runner st \<noteq> [] then reshape_tensor st @ [TfConstant (runner st)]
                         else reshape_tensor st)
           in Inr (Reshaped pieces (new_shape st))))"

subsection \<open>\<open>dropout\<close>\<close>

text \<open>
  \<open>dropout\<close> compares its \<open>phase\<close> argument with \<open>Phase.train\<close>, a member of an enumeration
  declared in \<open>pretty_tensor_class\<close>; the member is a parameter here. What the function
  returns is either the call \<open>tf.nn.dropout(input_layer, keep_prob, name=name)\<close>, kept as
  data, or the input layer itself.
\<close>

datatype ('l, 'k, 'n) dropout_result = TfNnDropout 'l 'k 'n | InputLayer 'l

definition dropout :: "'p \<Rightarrow> 'l \<Rightarrow> 'k \<Rightarrow> 'p \<Rightarrow> 'n \<Rightarrow> ('l, 'k, 'n) dropout_result" where
  "dropout train input_layer keep_prob phase name =
     (if phase = train then TfNnDropout input_layer keep_prob name
      else InputLayer input_layer)"

subsection \<open>\<open>split\<close> and \<open>unzip\<close>\<close>

text \<open>
  Python's \<open>xs[i]\<close> on a list: a negative index counts from the end, an index outside
  the list raises \<open>IndexError\<close>.
\<close>

definition py_getitem :: "'a list \<Rightarrow> int \<Rightarrow> error + 'a" where
  "py_getitem xs i =
     (if 0 \<le> i \<and> i < int (length xs) then Inr (xs ! nat i)
      else if i < 0 \<and> - int (length xs) \<le> i then Inr (xs ! nat (int (length xs) + i))
      else Inl IndexError)"

text \<open>
  \<open>_check_split_dims\<close> returns nothing or raises. \<open>shape[split_dim] % num_splits\<close> raises
  \<open>TypeError\<close> when the entry is \<open>None\<close> and \<open>ZeroDivisionError\<close> when \<open>num_splits\<close> is 0.
\<close>

definition check_split_dims :: "int \<Rightarrow> int \<Rightarrow> shape \<Rightarrow> error + unit" where
  "check_split_dims num_splits split_dim shape =
     (if split_dim \<ge> int (length shape) then Inl (ValueError SplitDimOutOfBounds)
      else
        (case py_getitem shape split_dim of
           Inl e \<Rightarrow> Inl e
         | Inr None \<Rightarrow> Inl TypeError
         | Inr (Some d) \<Rightarrow>
             if num_splits = 0 then Inl ZeroDivisionError
             else if int d mod num_splits \<noteq> 0 then Inl (ValueError FailureToSplit)
             else Inr ()))"

text \<open>
  After the check, \<open>split\<close> calls \<open>tf.split(split_dim, num_splits, input_layer)\<close> and
  \<open>unzip\<close> calls \<open>functions.unzip(input_layer, split_dim, shape[split_dim], num_splits)\<close>;
  the calls are kept as data, with the arguments that come from the shape.
\<close>

datatype split_call = TfSplit int int | FunctionsUnzip int "nat option" int

definition unzip :: "shape \<Rightarrow> int \<Rightarrow> int \<Rightarrow> error + split_call" where
  "unzip shape split_dim num_splits =
     (case check_split_dims num_splits split_dim shape of
        Inl e \<Rightarrow> Inl e
      | Inr _ \<Rightarrow>
          (case py_getitem shape split_dim of
             Inl e \<Rightarrow> Inl e
           | Inr d \<Rightarrow> Inr (FunctionsUnzip split_dim d num_splits)))"

definition split :: "shape \<Rightarrow> int \<Rightarrow> int \<Rightarrow> error + split_call" where
  "split shape split_dim num_splits =
     (case check_split_dims num_splits split_dim shape of
        Inl e \<Rightarrow> Inl e
      | Inr _ \<Rightarrow> Inr (TfSplit split_dim num_splits))"

section \<open>Notions for stating and proving the properties\<close>

text \<open>
  The wildcard entries of a spec are the ones the loop tests with
  \<open>s in (DIM_REST, -1, None)\<close>; the explicit integers are the remaining \<open>PyInt\<close> entries.
  \<open>resolve_entry\<close> is what the loop appends to \<open>result\<close> for the entry at index \<open>k\<close>,
  \<open>factor\<close> what it multiplies \<open>denominator\<close> by, \<open>loop_step\<close> one pass through the loop
  body that does not raise, and \<open>run_steps\<close> the passes over a whole spec.
\<close>

definition is_wildcard :: "spec_elem \<Rightarrow> bool" where
  "is_wildcard s = (s = DIM_REST \<or> s = PyInt (- 1) \<or> s = PyNone)"

fun explicit_integers :: "spec_elem list \<Rightarrow> int list" where
  "explicit_integers [] = []"
| "explicit_integers (PyInt x # rest) =
     (if x = - 1 then explicit_integers rest else x # explicit_integers rest)"
| "explicit_integers (s # rest) = explicit_integers rest"

fun resolve_entry :: "shape \<Rightarrow> nat \<Rightarrow> spec_elem \<Rightarrow> spec_elem" where
  "resolve_entry old_shape k DIM_SAME =
     (case old_shape ! k of None \<Rightarrow> DIM_SAME | Some d \<Rightarrow> PyInt (int d))"
| "resolve_entry old_shape k DIM_REST = PyInt (- 1)"
| "resolve_entry old_shape k PyNone = PyInt (- 1)"
| "resolve_entry old_shape k (PyInt x) = PyInt x"

fun factor :: "spec_elem \<Rightarrow> int" where
  "factor (PyInt x) = (if x = - 1 then 1 else x)"
| "factor s = 1"

definition loop_step :: "shape \<Rightarrow> nat \<Rightarrow> spec_elem \<Rightarrow> loop_state \<Rightarrow> loop_state" where
  "loop_step old_shape i s st =
     st\<lparr>numerator_elements :=
          (if s = DIM_SAME then (numerator_elements st)[i := 1] else numerator_elements st),
        denominator := denominator st * factor s,
        unknowns := (if is_wildcard s then Suc (unknowns st) else unknowns st),
        result := result st @ [resolve_entry old_shape i s]\<rparr>"

fun run_steps :: "shape \<Rightarrow> nat \<Rightarrow> spec_elem list \<Rightarrow> loop_state \<Rightarrow> loop_state" where
  "run_steps old_shape i [] st = st"
| "run_steps old_shape i (s # rest) st = run_steps old_shape (Suc i) rest (loop_step old_shape i s st)"

text \<open>
  The product of the input dimensions that the spec does not mark for copying, with \<open>u\<close>
  standing in for an unknown one. The description of the algorithm takes \<open>u = 1\<close>.
\<close>

definition numerator_with :: "int \<Rightarrow> shape \<Rightarrow> spec_elem list \<Rightarrow> int" where
  "numerator_with u old_shape shape_spec =
     prod_list (map (\<lambda>k. if k < length shape_spec \<and> shape_spec ! k = DIM_SAME then 1
                          else case old_shape ! k of None \<Rightarrow> u | Some d \<Rightarrow> int d)
                [0..<length old_shape])"

text \<open>
  The sizes a tensor has when the graph runs: a list of the rank of the static shape that
  agrees with it wherever the static shape is known. Against such a list a resolved entry
  is a number: an integer is itself, and a \<open>DIM_SAME\<close> left at index \<open>i\<close> is the size of
  dimension \<open>i\<close> of the input, which is what \<open>reshape\<close> reads from the graph for it.
  \<open>resolved_product\<close> is the product of the resolved entries, when all of them are numbers.
\<close>

definition known_as :: "shape \<Rightarrow> nat list \<Rightarrow> bool" where
  "known_as old_shape actual = list_all2 (\<lambda>x a. x = None \<or> x = Some a) old_shape actual"

fun resolved_dim :: "nat list \<Rightarrow> nat \<Rightarrow> spec_elem \<Rightarrow> int option" where
  "resolved_dim actual i (PyInt x) = Some x"
| "resolved_dim actual i DIM_SAME = (if i < length actual then Some (int (actual ! i)) else None)"
| "resolved_dim actual i s = None"

definition resolved_product :: "nat list \<Rightarrow> spec_elem list \<Rightarrow> int option" where
  "resolved_product actual r =
     (let ds = map (\<lambda>i. resolved_dim actual i (r ! i)) [0..<length r]
      in if None \<in> set ds then None else Some (prod_list (map the ds)))"

text \<open>The state in which the loop ends when it does not raise.\<close>

definition final_state :: "shape \<Rightarrow> spec_elem list \<Rightarrow> loop_state" where
  "final_state old_shape shape_spec = run_steps old_shape 0 shape_spec (initial_state old_shape)"

section \<open>The loop of \<open>_infer_unknown_dims\<close>\<close>

lemma numerator_of_prod: "numerator_of xs = prod_list xs"
proof -
  have "fold (\<lambda>x n. n * x) xs a = a * prod_list xs" for a :: int
    by (induction xs arbitrary: a) (simp_all add: mult.assoc)
  then show ?thesis by (simp add: numerator_of_def)
qed

subsection \<open>Rounding to a float\<close>

declare bit_length.simps [simp del]

lemma bit_length_le: "n < 2 ^ k \<Longrightarrow> bit_length n \<le> k"
proof (induction k arbitrary: n)
  case 0
  then show ?case by (simp add: bit_length.simps)
next
  case (Suc k)
  show ?case
  proof (cases "n = 0")
    case True
    then show ?thesis by (simp add: bit_length.simps)
  next
    case False
    from Suc.prems have "n div 2 < 2 ^ k" by auto
    from Suc.IH[OF this] False show ?thesis
      by (subst bit_length.simps) simp
  qed
qed

lemma bit_length_power: "bit_length (2 ^ k) = Suc k"
proof (induction k)
  case 0
  show ?case by (simp add: bit_length.simps[of "Suc 0"] bit_length.simps[of 0])
next
  case (Suc k)
  then show ?case by (subst bit_length.simps) simp
qed

lemma bit_length_2_53: "bit_length 9007199254740992 = 54"
  by (simp add: bit_length.simps)

lemma round_to_double_2_53:
  "round_to_double 9007199254740992 = Inr 9007199254740992"
  "round_to_double (- 9007199254740992) = Inr (- 9007199254740992)"
  by (simp_all add: round_to_double_def Let_def bit_length_2_53)

lemma round_to_double_exact:
  assumes "\<bar>q\<bar> \<le> 2 ^ 53"
  shows "round_to_double q = Inr q"
proof -
  have signed: "sgn q * int (nat \<bar>q\<bar>) = q"
    by (simp add: mult_sgn_abs)
  have top: "nat \<bar>q\<bar> < 2 ^ 1024" if "nat \<bar>q\<bar> \<le> 2 ^ 53"
  proof -
    have "(2::nat) ^ 53 < 2 ^ 1024" by (rule power_strict_increasing) simp_all
    with that show ?thesis by simp
  qed
  show ?thesis
  proof (cases "\<bar>q\<bar> = 2 ^ 53")
    case True
    then consider "q = 9007199254740992" | "q = - 9007199254740992"
      by (cases "0 \<le> q") simp_all
    then show ?thesis
    proof cases
      case 1
      then show ?thesis
        by (simp only: round_to_double_2_53)
    next
      case 2
      then show ?thesis
        by (simp only: round_to_double_2_53)
    qed
  next
    case False
    with assms have "nat \<bar>q\<bar> < 2 ^ 53"
      by (simp add: nat_less_iff)
    from bit_length_le[OF this] have e: "bit_length (nat \<bar>q\<bar>) - 53 = 0"
      by simp
    from top \<open>nat \<bar>q\<bar> < 2 ^ 53\<close> signed show ?thesis
      by (simp add: round_to_double_def Let_def e not_le)
  qed
qed

lemmas run_defs =
  infer_unknown_dims_def initial_state_def initial_numerator_elements_def finish_def
  numerator_of_def infer_loop.simps(2) format_spec_def int_true_div_def round_to_double_exact

subsection \<open>The loop, step by step\<close>

lemma infer_loop_Cons:
  "infer_loop old i (s # rest) st =
     (if s = DIM_SAME \<and> length old \<le> i then Inl (ValueError (ExceedsInputShape i))
      else infer_loop old (Suc i) rest (loop_step old i s st))"
  by (cases st; cases s) (simp_all add: loop_step_def is_wildcard_def)

declare infer_loop.simps(2) [simp del]

lemma infer_loop_Inr:
  "infer_loop old i spec st = Inr st' \<Longrightarrow>
   st' = run_steps old i spec st \<and> (\<forall>j<length spec. spec ! j = DIM_SAME \<longrightarrow> i + j < length old)"
proof (induction spec arbitrary: i st)
  case Nil
  then show ?case by simp
next
  case (Cons s rest)
  from Cons.prems have ok: "\<not> (s = DIM_SAME \<and> length old \<le> i)"
    and rec: "infer_loop old (Suc i) rest (loop_step old i s st) = Inr st'"
    by (auto simp: infer_loop_Cons split: if_splits)
  from Cons.IH[OF rec] have st': "st' = run_steps old (Suc i) rest (loop_step old i s st)"
    and later: "\<forall>j<length rest. rest ! j = DIM_SAME \<longrightarrow> Suc i + j < length old"
    by auto
  have "i + j < length old" if "j < length (s # rest)" "(s # rest) ! j = DIM_SAME" for j
  proof (cases j)
    case 0
    with that ok show ?thesis by simp
  next
    case (Suc j')
    with that later show ?thesis by simp
  qed
  with st' show ?case by simp
qed

lemma infer_loop_Inl:
  "infer_loop old i spec st = Inl e \<Longrightarrow>
   \<exists>j<length spec. e = ValueError (ExceedsInputShape (i + j)) \<and> length old \<le> i + j
      \<and> spec ! j = DIM_SAME"
proof (induction spec arbitrary: i st)
  case Nil
  then show ?case by simp
next
  case (Cons s rest)
  show ?case
  proof (cases "s = DIM_SAME \<and> length old \<le> i")
    case True
    with Cons.prems have "e = ValueError (ExceedsInputShape i)"
      by (simp add: infer_loop_Cons)
    with True show ?thesis by (intro exI[of _ 0]) simp
  next
    case False
    with Cons.prems have "infer_loop old (Suc i) rest (loop_step old i s st) = Inl e"
      by (simp add: infer_loop_Cons)
    from Cons.IH[OF this] obtain j where "j < length rest"
      "e = ValueError (ExceedsInputShape (Suc i + j))" "length old \<le> Suc i + j" "rest ! j = DIM_SAME"
      by blast
    then show ?thesis by (intro exI[of _ "Suc j"]) simp
  qed
qed

lemma infer_loop_ok:
  "(\<forall>j<length spec. spec ! j = DIM_SAME \<longrightarrow> i + j < length old) \<Longrightarrow>
   infer_loop old i spec st = Inr (run_steps old i spec st)"
proof (induction spec arbitrary: i st)
  case Nil
  then show ?case by simp
next
  case (Cons s rest)
  from Cons.prems[rule_format, of 0] have ok: "\<not> (s = DIM_SAME \<and> length old \<le> i)"
    by auto
  have "\<forall>j<length rest. rest ! j = DIM_SAME \<longrightarrow> Suc i + j < length old"
    using Cons.prems[rule_format, of "Suc j" for j] by auto
  from Cons.IH[OF this] ok show ?case
    by (simp add: infer_loop_Cons)
qed

lemma run_steps_unknowns:
  "unknowns (run_steps old i spec st) = unknowns st + length (filter is_wildcard spec)"
  by (induction spec arbitrary: i st) (simp_all add: loop_step_def)

lemma factor_prod: "prod_list (map factor spec) = prod_list (explicit_integers spec)"
  by (induction spec rule: explicit_integers.induct) simp_all

lemma run_steps_denominator:
  "denominator (run_steps old i spec st) = denominator st * prod_list (explicit_integers spec)"
proof -
  have "denominator (run_steps old i spec st) = denominator st * prod_list (map factor spec)"
    by (induction spec arbitrary: i st) (simp_all add: loop_step_def mult.assoc)
  then show ?thesis by (simp add: factor_prod)
qed

lemma run_steps_result_length:
  "length (result (run_steps old i spec st)) = length (result st) + length spec"
  by (induction spec arbitrary: i st) (simp_all add: loop_step_def)

lemma run_steps_result_nth:
  "j < length spec \<Longrightarrow>
   result (run_steps old i spec st) ! (length (result st) + j) = resolve_entry old (i + j) (spec ! j)"
proof (induction spec arbitrary: i j st)
  case Nil
  then show ?case by simp
next
  case (Cons s rest)
  show ?case
  proof (cases j)
    case 0
    have "result (run_steps old (Suc i) rest st1) ! n = result st1 ! n"
      if "n < length (result st1)" for st1 n
      using that by (induction rest arbitrary: i st1) (simp_all add: loop_step_def nth_append)
    from this[of "length (result st)" "loop_step old i s st"] 0 show ?thesis
      by (simp add: loop_step_def)
  next
    case (Suc j')
    with Cons.prems have "j' < length rest" by simp
    from Cons.IH[OF this, of "Suc i" "loop_step old i s st"] Suc show ?thesis
      by (simp add: loop_step_def)
  qed
qed

lemma run_steps_numerator_length:
  "length (numerator_elements (run_steps old i spec st)) = length (numerator_elements st)"
  by (induction spec arbitrary: i st) (simp_all add: loop_step_def)

lemma run_steps_numerator_nth:
  "k < length (numerator_elements st) \<Longrightarrow>
   numerator_elements (run_steps old i spec st) ! k =
     (if i \<le> k \<and> k - i < length spec \<and> spec ! (k - i) = DIM_SAME then 1
      else numerator_elements st ! k)"
proof (induction spec arbitrary: i st)
  case Nil
  then show ?case by simp
next
  case (Cons s rest)
  have len: "k < length (numerator_elements (loop_step old i s st))"
    using Cons.prems by (simp add: loop_step_def)
  show ?case
  proof (cases "i = k")
    case True
    with Cons.IH[OF len, of "Suc i"] Cons.prems show ?thesis
      by (simp add: loop_step_def)
  next
    case False
    with Cons.IH[OF len, of "Suc i"] Cons.prems show ?thesis
      by (auto simp: loop_step_def nth_Cons' Suc_diff_le)
  qed
qed


lemma infer_Inr:
  assumes "infer_unknown_dims old spec_type spec = Inr r"
  shows "infer_loop old 0 spec (initial_state old) = Inr (final_state old spec)"
    and "finish spec_type spec (final_state old spec) = Inr r"
    and "\<And>j. j < length spec \<Longrightarrow> spec ! j = DIM_SAME \<Longrightarrow> j < length old"
proof -
  from assms obtain st where st: "infer_loop old 0 spec (initial_state old) = Inr st"
    and fin: "finish spec_type spec st = Inr r"
    by (auto simp: infer_unknown_dims_def split: sum.splits)
  from infer_loop_Inr[OF st] have eq: "st = final_state old spec"
    and ok: "\<forall>j<length spec. spec ! j = DIM_SAME \<longrightarrow> j < length old"
    by (simp_all add: final_state_def)
  from st eq show "infer_loop old 0 spec (initial_state old) = Inr (final_state old spec)"
    by simp
  from fin eq show "finish spec_type spec (final_state old spec) = Inr r" by simp
  from ok show "\<And>j. j < length spec \<Longrightarrow> spec ! j = DIM_SAME \<Longrightarrow> j < length old" by simp
qed

lemma infer_Inl:
  assumes "infer_unknown_dims old spec_type spec = Inl e"
  shows "(\<exists>j<length spec. e = ValueError (ExceedsInputShape j) \<and> length old \<le> j \<and> spec ! j = DIM_SAME)
       \<or> (infer_loop old 0 spec (initial_state old) = Inr (final_state old spec)
          \<and> finish spec_type spec (final_state old spec) = Inl e)"
proof (cases "infer_loop old 0 spec (initial_state old)")
  case (Inl e')
  with assms have "e' = e" by (simp add: infer_unknown_dims_def)
  with infer_loop_Inl[OF Inl] show ?thesis by simp
next
  case (Inr st)
  from infer_loop_Inr[OF Inr] have "st = final_state old spec"
    by (simp add: final_state_def)
  with Inr assms show ?thesis by (simp add: infer_unknown_dims_def)
qed

lemma final_state_unknowns: "unknowns (final_state old spec) = length (filter is_wildcard spec)"
  by (simp add: final_state_def run_steps_unknowns initial_state_def)

lemma final_state_denominator:
  "denominator (final_state old spec) = prod_list (explicit_integers spec)"
  by (simp add: final_state_def run_steps_denominator initial_state_def)

lemma final_state_result_length: "length (result (final_state old spec)) = length spec"
  by (simp add: final_state_def run_steps_result_length initial_state_def)

lemma final_state_result_nth:
  "j < length spec \<Longrightarrow> result (final_state old spec) ! j = resolve_entry old j (spec ! j)"
  using run_steps_result_nth[of j spec old 0 "initial_state old"]
  by (simp add: final_state_def initial_state_def)

lemma final_state_numerator_length:
  "length (numerator_elements (final_state old spec)) = length old"
  by (simp add: final_state_def run_steps_numerator_length initial_state_def
      initial_numerator_elements_def)

lemma final_state_numerator_nth:
  "k < length old \<Longrightarrow>
   numerator_elements (final_state old spec) ! k =
     (if k < length spec \<and> spec ! k = DIM_SAME then 1
      else if truthy (old ! k) then int (the (old ! k)) else 0)"
  using run_steps_numerator_nth[of k "initial_state old" old 0 spec]
  by (simp add: final_state_def initial_state_def initial_numerator_elements_def)

lemma loop_numerator_cases:
  "(\<exists>j<length spec. loop_numerator old spec = Inl (ValueError (ExceedsInputShape j))
       \<and> infer_unknown_dims old spec_type spec = Inl (ValueError (ExceedsInputShape j))
       \<and> length old \<le> j \<and> spec ! j = DIM_SAME)
   \<or> (loop_numerator old spec = Inr (prod_list (numerator_elements (final_state old spec)))
       \<and> infer_unknown_dims old spec_type spec = finish spec_type spec (final_state old spec)
       \<and> (\<forall>j<length spec. spec ! j = DIM_SAME \<longrightarrow> j < length old))"
proof (cases "infer_loop old 0 spec (initial_state old)")
  case (Inl e)
  from infer_loop_Inl[OF Inl] Inl show ?thesis
    by (auto simp: loop_numerator_def infer_unknown_dims_def)
next
  case (Inr st)
  from infer_loop_Inr[OF Inr] Inr show ?thesis
    by (simp add: loop_numerator_def infer_unknown_dims_def final_state_def numerator_of_prod)
qed

lemma finish_no_mismatch:
  "prod_list (numerator_elements st) = 0 \<Longrightarrow>
   finish spec_type spec st \<noteq> Inl (ValueError CannotReshape)"
  by (simp add: finish_def numerator_of_prod format_spec_def)

lemma finish_wildcard_entry:
  assumes "finish spec_type spec st = Inr r"
    and "i < length (result st)" and "result st ! i = PyInt (- 1)" and "unknowns st \<noteq> 0"
  shows "(prod_list (numerator_elements st) = 0 \<longrightarrow> r ! i = PyInt (- 1))
       \<and> (prod_list (numerator_elements st) \<noteq> 0 \<longrightarrow>
            (\<exists>u. int_true_div (prod_list (numerator_elements st)) (denominator st) = Inr u
               \<and> r ! i = PyInt u))"
  using assms
  by (auto simp: finish_def Let_def numerator_of_prod split: if_splits sum.splits)

lemma int_true_div_Inl: "int_true_div n d = Inl e \<Longrightarrow> e = OverflowError"
  by (auto simp: int_true_div_def round_to_double_def Let_def split: if_splits)


lemma int_true_div_exact:
  "\<bar>n div d\<bar> \<le> 2 ^ 53 \<Longrightarrow> int_true_div n d = Inr (n div d)"
  by (simp add: int_true_div_def round_to_double_exact)

lemma bit_length_3_34: "bit_length 16677181699666569 = 54"
  by (simp add: bit_length.simps)

lemma round_to_double_3_34: "round_to_double 16677181699666569 = Inr 16677181699666568"
  by (simp add: round_to_double_def Let_def bit_length_3_34)

lemma final_state_numerator_elements:
  "numerator_elements (final_state old spec) =
     map (\<lambda>k. if k < length spec \<and> spec ! k = DIM_SAME then 1
               else case old ! k of None \<Rightarrow> 0 | Some d \<Rightarrow> int d) [0..<length old]"
proof (rule nth_equalityI)
  show "length (numerator_elements (final_state old spec)) =
      length (map (\<lambda>k. if k < length spec \<and> spec ! k = DIM_SAME then 1
               else case old ! k of None \<Rightarrow> 0 | Some d \<Rightarrow> int d) [0..<length old])"
    by (simp add: final_state_numerator_length)
next
  fix k
  assume "k < length (numerator_elements (final_state old spec))"
  then have k: "k < length old"
    by (simp add: final_state_numerator_length)
  have "(if truthy x then int (the x) else 0) = (case x of None \<Rightarrow> 0 | Some d \<Rightarrow> int d)"
    for x :: "nat option"
    by (cases x) simp_all
  with k show "numerator_elements (final_state old spec) ! k =
      map (\<lambda>k. if k < length spec \<and> spec ! k = DIM_SAME then 1
               else case old ! k of None \<Rightarrow> 0 | Some d \<Rightarrow> int d) [0..<length old] ! k"
    by (simp add: final_state_numerator_nth)
qed

lemma final_state_numerator: 
  "prod_list (numerator_elements (final_state old spec)) = numerator_with 0 old spec"
  by (simp add: final_state_numerator_elements numerator_with_def)



subsection \<open>Products over index ranges\<close>

lemma prod_list_map_mult:
  "prod_list (map (\<lambda>k. f k * g k) xs) = prod_list (map f xs) * prod_list (map g xs)"
  for f g :: "'a \<Rightarrow> int"
  by (induction xs) (simp_all add: mult.assoc mult.left_commute)

lemma prod_list_upt_ones:
  fixes f :: "nat \<Rightarrow> int"
  assumes "m \<le> n" and "\<And>k. m \<le> k \<Longrightarrow> k < n \<Longrightarrow> f k = 1"
  shows "prod_list (map f [0..<n]) = prod_list (map f [0..<m])"
  using assms
proof (induction n)
  case 0
  then show ?case by simp
next
  case (Suc n)
  show ?case
  proof (cases "m = Suc n")
    case True
    then show ?thesis by simp
  next
    case False
    with Suc.prems have "m \<le> n" by simp
    moreover have "f n = 1" using Suc.prems(2)[of n] \<open>m \<le> n\<close> by simp
    ultimately show ?thesis using Suc.IH Suc.prems(2) by simp
  qed
qed

lemma map_nth_fun: "map (\<lambda>j. f (xs ! j)) [0..<length xs] = map f xs"
  by (rule nth_equalityI) simp_all

lemma prod_list_pos:
  fixes xs :: "int list"
  shows "(\<And>x. x \<in> set xs \<Longrightarrow> 0 < x) \<Longrightarrow> 0 < prod_list xs"
  by (induction xs) simp_all

section \<open>Validation of the spec\<close>

lemma wildcard_count_outcome:
  "(2 \<le> length (filter is_wildcard shape_spec) \<longrightarrow>
      (\<exists>j. infer_unknown_dims old_shape spec_type shape_spec
            = Inl (ValueError (ExceedsInputShape j)))
      \<or> infer_unknown_dims old_shape spec_type shape_spec
            = (if spec_type = PyTuple then Inl TypeError else Inl (ValueError OnlyOneUnknown)))
   \<and> (length (filter is_wildcard shape_spec) \<le> 1 \<longrightarrow>
      infer_unknown_dims old_shape spec_type shape_spec \<noteq> Inl (ValueError OnlyOneUnknown))"
proof (intro conjI impI)
  assume two: "2 \<le> length (filter is_wildcard shape_spec)"
  then have len: "length shape_spec \<noteq> 1"
    using length_filter_le[of is_wildcard shape_spec] by linarith
  show "(\<exists>j. infer_unknown_dims old_shape spec_type shape_spec
            = Inl (ValueError (ExceedsInputShape j)))
      \<or> infer_unknown_dims old_shape spec_type shape_spec
            = (if spec_type = PyTuple then Inl TypeError else Inl (ValueError OnlyOneUnknown))"
  proof (cases "infer_loop old_shape 0 shape_spec (initial_state old_shape)")
    case (Inl e)
    from infer_loop_Inl[OF Inl] obtain j where "e = ValueError (ExceedsInputShape j)"
      by auto
    with Inl show ?thesis by (simp add: infer_unknown_dims_def)
  next
    case (Inr st)
    from infer_loop_Inr[OF Inr] have "st = final_state old_shape shape_spec"
      by (simp add: final_state_def)
    with two len
    have "finish spec_type shape_spec st
        = (if spec_type = PyTuple then Inl TypeError else Inl (ValueError OnlyOneUnknown))"
      by (simp add: finish_def final_state_unknowns format_spec_def)
    with Inr show ?thesis by (simp add: infer_unknown_dims_def)
  qed
next
  assume one: "length (filter is_wildcard shape_spec) \<le> 1"
  show "infer_unknown_dims old_shape spec_type shape_spec \<noteq> Inl (ValueError OnlyOneUnknown)"
  proof
    assume "infer_unknown_dims old_shape spec_type shape_spec = Inl (ValueError OnlyOneUnknown)"
    from infer_Inl[OF this]
    have "finish spec_type shape_spec (final_state old_shape shape_spec)
        = Inl (ValueError OnlyOneUnknown)"
      by auto
    with one show False
      by (auto simp: finish_def final_state_unknowns Let_def
          split: if_splits sum.splits dest: int_true_div_Inl)
  qed
qed

text \<open>
  C3: a shape spec with two or more wildcard entries (any mix of \<open>DIM_REST\<close>, \<open>-1\<close> and
  \<open>None\<close>) is to make \<open>_infer_unknown_dims\<close> raise a \<open>ValueError\<close>. For a spec that is a list
  the code does; for a spec that is a tuple the message \<open>'...%s' % shape_spec\<close> cannot be
  formatted, so what is raised is a \<open>TypeError\<close>, which \<open>reshape\<close> catches and answers by
  handing the spec to \<open>tf.reshape\<close>. The input shape \<open>[6]\<close> with the spec
  \<open>(DIM_REST, None)\<close>:
\<close>

theorem C3_tuple_two_wildcards:
  "infer_unknown_dims [Some 6] PyTuple [DIM_REST, PyNone] = Inl TypeError
   \<and> reshape [Some 6] PyTuple [DIM_REST, PyNone] = Inr (TfReshapeSpec PyTuple [DIM_REST, PyNone])
   \<and> infer_unknown_dims [Some 6] PyList [DIM_REST, PyNone] = Inl (ValueError OnlyOneUnknown)"
  by (simp add: reshape_def run_defs)

text \<open>
  C5: a shape spec that holds \<open>DIM_SAME\<close> at an index that is not below the length of the
  input shape makes \<open>_infer_unknown_dims\<close> raise the \<open>ValueError\<close> "exceeds the input
  shape".
\<close>

theorem C5_copy_marker_out_of_range:
  assumes "i < length shape_spec" and "shape_spec ! i = DIM_SAME" and "length old_shape \<le> i"
  shows "\<exists>j. infer_unknown_dims old_shape spec_type shape_spec = Inl (ValueError (ExceedsInputShape j))"
proof (cases "infer_loop old_shape 0 shape_spec (initial_state old_shape)")
  case (Inl e)
  from infer_loop_Inl[OF Inl] obtain j where "e = ValueError (ExceedsInputShape j)"
    by auto
  with Inl show ?thesis by (simp add: infer_unknown_dims_def)
next
  case (Inr st)
  from infer_loop_Inr[OF Inr] assms have False by fastforce
  then show ?thesis ..
qed

theorem C5_copy_marker_out_of_range_witness:
  "(1::nat) < length [PyInt 2, DIM_SAME] \<and> [PyInt 2, DIM_SAME] ! 1 = DIM_SAME
   \<and> length [Some (4::nat)] \<le> 1
   \<and> infer_unknown_dims [Some 4] PyList [PyInt 2, DIM_SAME] = Inl (ValueError (ExceedsInputShape 1))"
  using C5_copy_marker_out_of_range[of 1 "[PyInt 2, DIM_SAME]" "[Some 4]" PyList]
  by (simp add: infer_unknown_dims_def initial_state_def initial_numerator_elements_def
      infer_loop.simps(2))

text \<open>
  C8: if the input shape has an unknown or zero dimension at a position that the spec does
  not mark with \<open>DIM_SAME\<close>, then \<open>numerator\<close> is 0 whenever the loop gets to compute it,
  and \<open>_infer_unknown_dims\<close> never raises the size mismatch "cannot be reshaped",
  whatever the explicit integers of the spec are.
\<close>

theorem C8_zero_numerator_no_size_mismatch:
  assumes "k < length old_shape"
    and "old_shape ! k = None \<or> old_shape ! k = Some 0"
    and "length shape_spec \<le> k \<or> shape_spec ! k \<noteq> DIM_SAME"
  shows "(loop_numerator old_shape shape_spec = Inr 0
          \<or> (\<exists>j. loop_numerator old_shape shape_spec = Inl (ValueError (ExceedsInputShape j))))
       \<and> infer_unknown_dims old_shape spec_type shape_spec \<noteq> Inl (ValueError CannotReshape)"
proof -
  let ?st = "final_state old_shape shape_spec"
  have "numerator_elements ?st ! k = 0"
    using assms by (auto simp: final_state_numerator_nth)
  moreover have "k < length (numerator_elements ?st)"
    using assms(1) by (simp add: final_state_numerator_length)
  ultimately have "0 \<in> set (numerator_elements ?st)"
    by (metis nth_mem)
  then have zero: "prod_list (numerator_elements ?st) = 0"
    by (simp add: prod_list_zero_iff)
  from loop_numerator_cases[of shape_spec old_shape] show ?thesis
  proof
    assume "\<exists>j<length shape_spec.
      loop_numerator old_shape shape_spec = Inl (ValueError (ExceedsInputShape j))
      \<and> infer_unknown_dims old_shape spec_type shape_spec = Inl (ValueError (ExceedsInputShape j))
      \<and> length old_shape \<le> j \<and> shape_spec ! j = DIM_SAME"
    then show ?thesis by auto
  next
    assume "loop_numerator old_shape shape_spec = Inr (prod_list (numerator_elements ?st))
      \<and> infer_unknown_dims old_shape spec_type shape_spec = finish spec_type shape_spec ?st
      \<and> (\<forall>j<length shape_spec. shape_spec ! j = DIM_SAME \<longrightarrow> j < length old_shape)"
    with zero finish_no_mismatch[OF zero] show ?thesis by simp
  qed
qed

theorem C8_zero_numerator_no_size_mismatch_witness:
  "(0::nat) < length [None, Some (3::nat)]
   \<and> [None, Some (3::nat)] ! 0 = None
   \<and> [PyInt 5, PyInt 7] ! 0 \<noteq> DIM_SAME
   \<and> loop_numerator [None, Some 3] [PyInt 5, PyInt 7] = Inr 0
   \<and> infer_unknown_dims [None, Some 3] PyList [PyInt 5, PyInt 7] = Inr [PyInt 5, PyInt 7]
   \<and> infer_unknown_dims [None, Some 3] PyList [PyInt 5, PyInt 7] \<noteq> Inl (ValueError CannotReshape)"
  using C8_zero_numerator_no_size_mismatch[of 0 "[None, Some 3]" "[PyInt 5, PyInt 7]" PyList]
  by (simp add: loop_numerator_def run_defs)

text \<open>
  C7 fails as stated for every call of \<open>split\<close> or \<open>unzip\<close>: with an unknown dimension at
  \<open>split_dim\<close> the check raises a \<open>TypeError\<close>, with \<open>num_splits = 0\<close> a
  \<open>ZeroDivisionError\<close>, and with a \<open>split_dim\<close> below minus the rank an \<open>IndexError\<close>; none
  is a \<open>ValueError\<close>, and the operation is not called.
\<close>

theorem C7_split_counterexample:
  "split [None, Some 4] 0 2 = Inl TypeError \<and> unzip [None, Some 4] 0 2 = Inl TypeError
   \<and> \<not> is_ValueError TypeError
   \<and> split [Some 4] 0 0 = Inl ZeroDivisionError \<and> unzip [Some 4] 0 0 = Inl ZeroDivisionError
   \<and> \<not> is_ValueError ZeroDivisionError
   \<and> split [Some 4] (- 2) 2 = Inl IndexError \<and> unzip [Some 4] (- 2) 2 = Inl IndexError
   \<and> \<not> is_ValueError IndexError"
  by (simp add: split_def unzip_def check_split_dims_def py_getitem_def)

text \<open>
  C7, as the code has it: for a call of \<open>split\<close> or \<open>unzip\<close> with a nonzero \<open>num_splits\<close>
  and, when \<open>split_dim\<close> is below the rank, a known dimension \<open>d\<close> at \<open>shape[split_dim]\<close>, a
  \<open>ValueError\<close> is raised if \<open>split_dim\<close> is at least the rank or \<open>num_splits\<close> does not
  divide \<open>d\<close>, and otherwise the check passes and the operation is called.
\<close>

theorem C7_split_validation:
  assumes "num_splits \<noteq> 0"
    and "split_dim < int (length shape) \<Longrightarrow> py_getitem shape split_dim = Inr (Some d)"
  shows "(int (length shape) \<le> split_dim \<or> \<not> num_splits dvd int d \<longrightarrow>
            (\<exists>v. split shape split_dim num_splits = Inl (ValueError v))
          \<and> (\<exists>v. unzip shape split_dim num_splits = Inl (ValueError v)))
       \<and> (split_dim < int (length shape) \<and> num_splits dvd int d \<longrightarrow>
            split shape split_dim num_splits = Inr (TfSplit split_dim num_splits)
          \<and> unzip shape split_dim num_splits = Inr (FunctionsUnzip split_dim (Some d) num_splits))"
proof (cases "split_dim < int (length shape)")
  case False
  then show ?thesis
    by (simp add: split_def unzip_def check_split_dims_def)
next
  case True
  from assms(2)[OF True] have get: "py_getitem shape split_dim = Inr (Some d)" .
  show ?thesis
  proof (cases "num_splits dvd int d")
    case dvd: True
    then have "int d mod num_splits = 0" by (simp add: dvd_eq_mod_eq_0)
    with True get assms(1) dvd show ?thesis
      by (simp add: split_def unzip_def check_split_dims_def)
  next
    case ndvd: False
    then have "int d mod num_splits \<noteq> 0" by (simp add: dvd_eq_mod_eq_0)
    with True get assms(1) ndvd show ?thesis
      by (simp add: split_def unzip_def check_split_dims_def)
  qed
qed

theorem C7_split_validation_witness:
  "(2::int) \<noteq> 0 \<and> (1::int) < int (length [Some (4::nat), Some 6])
   \<and> py_getitem [Some (4::nat), Some 6] 1 = Inr (Some 6)
   \<and> (2::int) dvd int 6
   \<and> split [Some 4, Some 6] 1 2 = Inr (TfSplit 1 2)
   \<and> unzip [Some 4, Some 6] 1 2 = Inr (FunctionsUnzip 1 (Some 6) 2)
   \<and> \<not> (4::int) dvd int 6
   \<and> split [Some 4, Some 6] 1 4 = Inl (ValueError FailureToSplit)
   \<and> split [Some 4, Some 6] 2 2 = Inl (ValueError SplitDimOutOfBounds)"
proof -
  have get: "py_getitem [Some (4::nat), Some 6] 1 = Inr (Some 6)"
    by (simp add: py_getitem_def)
  have "(2::int) \<noteq> 0" by simp
  from C7_split_validation[OF this, of 1 "[Some 4, Some 6]" 6] get
  show ?thesis
    by (simp add: split_def unzip_def check_split_dims_def)
qed

section \<open>What the resolved shape holds\<close>

text \<open>
  C1 fails as stated for every input shape. An input dimension that is 0 or unknown and
  not copied makes \<open>numerator\<close> 0, and then no check compares the explicit integers with
  the input: \<open>[0, 3]\<close> and \<open>[None, 3]\<close> are both resolved against \<open>[5, 7]\<close> to \<open>[5, 7]\<close>, of
  product 35, where the input has 0 elements, or 6 when the unknown dimension is 2.
\<close>

theorem C1_product_counterexample:
  "infer_unknown_dims [Some 0, Some 3] PyList [PyInt 5, PyInt 7] = Inr [PyInt 5, PyInt 7]
   \<and> known_as [Some 0, Some 3] [0, 3]
   \<and> resolved_product [0, 3] [PyInt 5, PyInt 7] = Some 35
   \<and> prod_list (map int [0, 3]) = 0
   \<and> infer_unknown_dims [None, Some 3] PyList [PyInt 5, PyInt 7] = Inr [PyInt 5, PyInt 7]
   \<and> known_as [None, Some 3] [2, 3]
   \<and> resolved_product [2, 3] [PyInt 5, PyInt 7] = Some 35
   \<and> prod_list (map int [2, 3]) = 6"
  by (simp add: run_defs known_as_def resolved_product_def
      upt_rec)

text \<open>
  C1, as the code has it: for an input shape whose dimensions not marked for copying are
  all known and nonzero, and a spec whose entries are all \<open>DIM_SAME\<close> or explicit integers
  (no wildcard), the list that \<open>_infer_unknown_dims\<close> returns has the product of the input
  dimensions, a copied unknown dimension standing for the same size on both sides.
\<close>

theorem C1_product_preserved:
  assumes spec: "\<forall>s\<in>set shape_spec. s = DIM_SAME \<or> (\<exists>x. s = PyInt x \<and> x \<noteq> - 1)"
    and act: "known_as old_shape actual"
    and nc: "\<forall>k<length old_shape. (k < length shape_spec \<and> shape_spec ! k = DIM_SAME)
               \<or> (\<exists>d. old_shape ! k = Some d \<and> d \<noteq> 0)"
    and ret: "infer_unknown_dims old_shape spec_type shape_spec = Inr r"
  shows "resolved_product actual r = Some (prod_list (map int actual))"
proof -
  let ?st = "final_state old_shape shape_spec"
  let ?N = "prod_list (numerator_elements ?st)"
  let ?D = "prod_list (explicit_integers shape_spec)"
  define copied where "copied k \<longleftrightarrow> k < length shape_spec \<and> shape_spec ! k = DIM_SAME" for k
  define c where "c k = (if copied k then int (actual ! k) else 1)" for k
  define n where "n k = (if copied k then 1 else int (actual ! k))" for k
  have len: "length actual = length old_shape"
    using act by (simp add: known_as_def list_all2_lengthD)
  have known: "actual ! k = d" if "k < length old_shape" "old_shape ! k = Some d" for k d
    using act that by (auto simp: known_as_def list_all2_conv_all_nth)
  have fin: "finish spec_type shape_spec ?st = Inr r" using infer_Inr(2)[OF ret] .
  have ok: "j < length old_shape" if "copied j" for j
    using infer_Inr(3)[OF ret] that by (simp add: copied_def)
  have "filter is_wildcard shape_spec = []"
    using spec by (auto simp: filter_empty_conv is_wildcard_def)
  then have unk: "unknowns ?st = 0"
    by (simp add: final_state_unknowns)
  have N: "?N = prod_list (map n [0..<length old_shape])"
  proof -
    have "(if k < length shape_spec \<and> shape_spec ! k = DIM_SAME then 1
           else case old_shape ! k of None \<Rightarrow> 0 | Some d \<Rightarrow> int d) = n k"
      if "k < length old_shape" for k
      using nc[rule_format, OF that] known[OF that] by (auto simp: n_def copied_def)
    then have "map (\<lambda>k. if k < length shape_spec \<and> shape_spec ! k = DIM_SAME then 1
           else case old_shape ! k of None \<Rightarrow> 0 | Some d \<Rightarrow> int d) [0..<length old_shape]
        = map n [0..<length old_shape]"
      by (intro map_cong[OF refl]) simp
    then show ?thesis
      by (simp only: final_state_numerator_elements)
  qed
  have "0 < n k" if "k < length old_shape" for k
    using nc[rule_format, OF that] known[OF that] by (auto simp: n_def copied_def)
  then have Npos: "0 < ?N"
    unfolding N by (intro prod_list_pos) auto
  from fin unk Npos have r: "r = result ?st" and ND: "?N = ?D"
    by (auto simp: finish_def Let_def numerator_of_prod final_state_denominator split: if_splits)
  have rlen: "length r = length shape_spec"
    by (simp add: r final_state_result_length)
  have dim: "resolved_dim actual j (r ! j) = Some (c j * factor (shape_spec ! j))"
    if j: "j < length shape_spec" for j
  proof (cases "shape_spec ! j = DIM_SAME")
    case True
    then have cj: "copied j" using j by (simp add: copied_def)
    from ok[OF cj] have jo: "j < length old_shape" .
    show ?thesis
    proof (cases "old_shape ! j")
      case None
      with True j jo len cj show ?thesis
        by (simp add: r final_state_result_nth c_def)
    next
      case (Some d)
      with True j jo cj known[OF jo Some] show ?thesis
        by (simp add: r final_state_result_nth c_def)
    qed
  next
    case False
    from j have "shape_spec ! j \<in> set shape_spec" by simp
    with spec False obtain x where "shape_spec ! j = PyInt x" "x \<noteq> - 1" by blast
    with j show ?thesis
      by (simp add: r final_state_result_nth c_def copied_def)
  qed
  have ds: "map (\<lambda>i. resolved_dim actual i (r ! i)) [0..<length r]
      = map (\<lambda>j. Some (c j * factor (shape_spec ! j))) [0..<length shape_spec]"
    unfolding rlen by (intro map_cong[OF refl]) (simp add: dim)
  have "resolved_product actual r
      = Some (prod_list (map (\<lambda>j. c j * factor (shape_spec ! j)) [0..<length shape_spec]))"
    by (auto simp: resolved_product_def ds Let_def comp_def)
  also have "prod_list (map (\<lambda>j. c j * factor (shape_spec ! j)) [0..<length shape_spec])
      = prod_list (map c [0..<length shape_spec])
        * prod_list (map (\<lambda>j. factor (shape_spec ! j)) [0..<length shape_spec])"
    by (rule prod_list_map_mult)
  also have "map (\<lambda>j. factor (shape_spec ! j)) [0..<length shape_spec] = map factor shape_spec"
    by (rule map_nth_fun)
  also have "prod_list (map factor shape_spec) = ?D"
    by (rule factor_prod)
  also have "prod_list (map c [0..<length shape_spec]) = prod_list (map c [0..<length old_shape])"
  proof -
    let ?m = "min (length shape_spec) (length old_shape)"
    have one: "c k = 1" if "?m \<le> k" for k
      using that ok[of k] by (auto simp: c_def copied_def)
    have "prod_list (map c [0..<length shape_spec]) = prod_list (map c [0..<?m])"
      by (rule prod_list_upt_ones) (simp_all add: one)
    moreover have "prod_list (map c [0..<length old_shape]) = prod_list (map c [0..<?m])"
      by (rule prod_list_upt_ones) (simp_all add: one)
    ultimately show ?thesis by simp
  qed
  also have "prod_list (map c [0..<length old_shape]) * ?D
      = prod_list (map c [0..<length old_shape]) * prod_list (map n [0..<length old_shape])"
    using ND N by simp
  also have "\<dots> = prod_list (map (\<lambda>k. c k * n k) [0..<length old_shape])"
    by (rule prod_list_map_mult[symmetric])
  also have "map (\<lambda>k. c k * n k) [0..<length old_shape]
      = map (\<lambda>k. int (actual ! k)) [0..<length actual]"
    by (simp add: len c_def n_def)
  also have "\<dots> = map int actual"
    by (rule map_nth_fun)
  finally show ?thesis .
qed

theorem C1_product_preserved_witness:
  "known_as [None, Some 3, Some 4] [5, 3, 4]
   \<and> infer_unknown_dims [None, Some 3, Some 4] PyList [DIM_SAME, PyInt 2, PyInt 6]
       = Inr [DIM_SAME, PyInt 2, PyInt 6]
   \<and> resolved_product [5, 3, 4] [DIM_SAME, PyInt 2, PyInt 6] = Some (prod_list (map int [5, 3, 4]))
   \<and> prod_list (map int [5, 3, 4]) = 60"
proof -
  have spec: "\<forall>s\<in>set [DIM_SAME, PyInt 2, PyInt 6]. s = DIM_SAME \<or> (\<exists>x. s = PyInt x \<and> x \<noteq> - 1)"
    by simp
  have act: "known_as [None, Some 3, Some 4] [5, 3, 4]"
    by (simp add: known_as_def)
  have nc: "\<forall>k<length [None, Some (3::nat), Some 4].
      (k < length [DIM_SAME, PyInt 2, PyInt 6] \<and> [DIM_SAME, PyInt 2, PyInt 6] ! k = DIM_SAME)
      \<or> (\<exists>d. [None, Some (3::nat), Some 4] ! k = Some d \<and> d \<noteq> 0)"
    by (simp add: nth_Cons' less_Suc_eq)
  have ret: "infer_unknown_dims [None, Some 3, Some 4] PyList [DIM_SAME, PyInt 2, PyInt 6]
      = Inr [DIM_SAME, PyInt 2, PyInt 6]"
    by (simp add: run_defs)
  from C1_product_preserved[OF spec act nc ret] act ret show ?thesis by simp
qed


text \<open>
  C4: where the shape spec holds \<open>DIM_SAME\<close> at an index \<open>i\<close> within the rank of the input
  shape and the input dimension at \<open>i\<close> is known, the list that \<open>_infer_unknown_dims\<close>
  returns holds that dimension at index \<open>i\<close>.
\<close>

theorem C4_copy_marker_copies:
  assumes "infer_unknown_dims old_shape spec_type shape_spec = Inr r"
    and "i < length shape_spec" and "shape_spec ! i = DIM_SAME"
    and "i < length old_shape" and "old_shape ! i = Some d"
  shows "r ! i = PyInt (int d)"
proof -
  let ?st = "final_state old_shape shape_spec"
  have fin: "finish spec_type shape_spec ?st = Inr r"
    using infer_Inr(2)[OF assms(1)] .
  have res: "result ?st ! i = PyInt (int d)"
    using assms(2,3,5) by (simp add: final_state_result_nth)
  have len: "i < length (result ?st)"
    using assms(2) by (simp add: final_state_result_length)
  have "PyInt (int d) \<noteq> PyInt (- 1)" by simp
  with fin res len show ?thesis
    by (auto simp: finish_def Let_def format_spec_def split: if_splits sum.splits)
qed

theorem C4_copy_marker_copies_witness:
  "infer_unknown_dims [Some 5, Some 3, Some 7] PyList [DIM_SAME, DIM_REST] = Inr [PyInt 5, PyInt 21]
   \<and> (0::nat) < length [DIM_SAME, DIM_REST] \<and> [DIM_SAME, DIM_REST] ! 0 = DIM_SAME
   \<and> (0::nat) < length [Some (5::nat), Some 3, Some 7]
   \<and> [Some (5::nat), Some 3, Some 7] ! 0 = Some 5
   \<and> [PyInt 5, PyInt 21] ! 0 = PyInt (int 5)"
proof -
  have run: "infer_unknown_dims [Some 5, Some 3, Some 7] PyList [DIM_SAME, DIM_REST]
      = Inr [PyInt 5, PyInt 21]"
    by (simp add: run_defs)
  from C4_copy_marker_copies[OF run, of 0 5] run show ?thesis by simp
qed

text \<open>
  C2 fails as stated: the code puts 0, not 1, in place of an unknown input dimension. For
  the input shape \<open>[None, 3]\<close> and the spec \<open>[DIM_REST]\<close> the numerator is 0, where the
  product with 1 for the unknown dimension is 3, and the wildcard stays \<open>-1\<close>. And the
  division is one of floats: for the input shape \<open>[129140163, 129140163]\<close> and the spec
  \<open>[-1]\<close> the numerator is 16677181699666569 and the wildcard is resolved to
  16677181699666568.
\<close>

theorem C2_numerator_counterexample:
  "loop_numerator [None, Some 3] [DIM_REST] = Inr 0
   \<and> numerator_with 1 [None, Some 3] [DIM_REST] = 3
   \<and> infer_unknown_dims [None, Some 3] PyList [DIM_REST] = Inr [PyInt (- 1)]
   \<and> loop_numerator [Some 129140163, Some 129140163] [PyInt (- 1)] = Inr 16677181699666569
   \<and> infer_unknown_dims [Some 129140163, Some 129140163] PyList [PyInt (- 1)]
       = Inr [PyInt 16677181699666568]"
  by (simp add: loop_numerator_def numerator_with_def run_defs round_to_double_3_34)

text \<open>
  C2, as the code has it: \<open>numerator\<close> is the product of the input dimensions not marked
  for copying with 0 in place of each unknown one, \<open>denominator\<close> is the product of the
  explicit integers, and when the call returns and \<open>numerator\<close> is not 0 every wildcard
  entry is resolved to \<open>int(numerator / denominator)\<close>, which is \<open>numerator\<close> divided by
  \<open>denominator\<close> whenever that quotient is at most \<open>2 ^ 53\<close> in magnitude.
\<close>

theorem C2_numerator_and_wildcard:
  "(\<forall>n. loop_numerator old_shape shape_spec = Inr n \<longrightarrow> n = numerator_with 0 old_shape shape_spec)
   \<and> (\<forall>st. infer_loop old_shape 0 shape_spec (initial_state old_shape) = Inr st \<longrightarrow>
         denominator st = prod_list (explicit_integers shape_spec))
   \<and> (\<forall>r i. infer_unknown_dims old_shape spec_type shape_spec = Inr r \<and> i < length shape_spec
         \<and> is_wildcard (shape_spec ! i) \<and> numerator_with 0 old_shape shape_spec \<noteq> 0 \<longrightarrow>
         (\<exists>u. int_true_div (numerator_with 0 old_shape shape_spec)
                 (prod_list (explicit_integers shape_spec)) = Inr u
            \<and> r ! i = PyInt u)
         \<and> (\<bar>numerator_with 0 old_shape shape_spec
               div prod_list (explicit_integers shape_spec)\<bar> \<le> 2 ^ 53 \<longrightarrow>
              r ! i = PyInt (numerator_with 0 old_shape shape_spec
                             div prod_list (explicit_integers shape_spec))))"
proof -
  let ?N = "numerator_with 0 old_shape shape_spec"
  let ?D = "prod_list (explicit_integers shape_spec)"
  let ?st = "final_state old_shape shape_spec"
  have num: "\<forall>n. loop_numerator old_shape shape_spec = Inr n \<longrightarrow> n = ?N"
    using loop_numerator_cases[of shape_spec old_shape spec_type]
    by (auto simp: final_state_numerator)
  have den: "\<forall>st. infer_loop old_shape 0 shape_spec (initial_state old_shape) = Inr st \<longrightarrow>
      denominator st = ?D"
    by (auto dest: infer_loop_Inr simp: final_state_denominator[unfolded final_state_def])
  have wild: "(\<exists>u. int_true_div ?N ?D = Inr u \<and> r ! i = PyInt u)
      \<and> (\<bar>?N div ?D\<bar> \<le> 2 ^ 53 \<longrightarrow> r ! i = PyInt (?N div ?D))"
    if a: "infer_unknown_dims old_shape spec_type shape_spec = Inr r \<and> i < length shape_spec
         \<and> is_wildcard (shape_spec ! i) \<and> ?N \<noteq> 0" for r i
  proof -
    from a have fin: "finish spec_type shape_spec ?st = Inr r"
      using infer_Inr(2) by blast
    from a have "resolve_entry old_shape i (shape_spec ! i) = PyInt (- 1)"
      by (auto simp: is_wildcard_def)
    with a have res: "result ?st ! i = PyInt (- 1)"
      by (simp add: final_state_result_nth)
    from a have len: "i < length (result ?st)"
      by (simp add: final_state_result_length)
    from a have "shape_spec ! i \<in> set (filter is_wildcard shape_spec)"
      by simp
    then have "filter is_wildcard shape_spec \<noteq> []"
      by (auto simp: filter_empty_conv)
    then have unk: "unknowns ?st \<noteq> 0"
      by (simp add: final_state_unknowns)
    from a have nz: "prod_list (numerator_elements ?st) \<noteq> 0"
      by (simp add: final_state_numerator)
    from finish_wildcard_entry[OF fin len res unk] nz
    obtain u where u: "int_true_div ?N ?D = Inr u" "r ! i = PyInt u"
      by (auto simp: final_state_numerator final_state_denominator)
    then show ?thesis
      by (auto simp: int_true_div_exact)
  qed
  from num den wild show ?thesis by blast
qed

theorem C2_numerator_and_wildcard_witness:
  "loop_numerator [Some 4, Some 6] [PyInt 2, PyInt (- 1)] = Inr 24
   \<and> numerator_with 0 [Some 4, Some 6] [PyInt 2, PyInt (- 1)] = 24
   \<and> prod_list (explicit_integers [PyInt 2, PyInt (- 1)]) = 2
   \<and> infer_unknown_dims [Some 4, Some 6] PyList [PyInt 2, PyInt (- 1)] = Inr [PyInt 2, PyInt 12]
   \<and> (1::nat) < length [PyInt 2, PyInt (- 1)]
   \<and> is_wildcard ([PyInt 2, PyInt (- 1)] ! 1)
   \<and> \<bar>24 div 2\<bar> \<le> (2::int) ^ 53
   \<and> [PyInt 2, PyInt 12] ! 1 = PyInt (24 div 2)"
proof -
  have run: "infer_unknown_dims [Some 4, Some 6] PyList [PyInt 2, PyInt (- 1)]
      = Inr [PyInt 2, PyInt 12]"
    by (simp add: run_defs)
  have num: "loop_numerator [Some 4, Some 6] [PyInt 2, PyInt (- 1)] = Inr 24"
    by (simp add: loop_numerator_def initial_state_def
      initial_numerator_elements_def numerator_of_def infer_loop.simps(2))
  from C2_numerator_and_wildcard[of "[Some 4, Some 6]" "[PyInt 2, PyInt (- 1)]" PyList] run num
  show ?thesis by (simp add: is_wildcard_def)
qed



section \<open>Dropout\<close>

text \<open>
  C10: for every input layer and \<open>keep_prob\<close>, \<open>dropout\<close> with a phase other than
  \<open>Phase.train\<close> returns the input layer itself, and with \<open>Phase.train\<close> it returns the
  call of \<open>tf.nn.dropout\<close>.
\<close>

theorem C10_dropout_phase:
  "(phase \<noteq> train \<longrightarrow> dropout train input_layer keep_prob phase name = InputLayer input_layer)
   \<and> (phase = train \<longrightarrow>
        dropout train input_layer keep_prob phase name = TfNnDropout input_layer keep_prob name)"
  by (simp add: dropout_def)

theorem C10_dropout_phase_witness:
  "''test'' \<noteq> ''train''
   \<and> dropout ''train'' ''layer'' (1::nat) ''test'' ''name'' = InputLayer ''layer''
   \<and> dropout ''train'' ''layer'' (1::nat) ''train'' ''name'' = TfNnDropout ''layer'' 1 ''name''"
  using C10_dropout_phase[of "''test''" "''train''" "''layer''" "1::nat" "''name''"]
    C10_dropout_phase[of "''train''" "''train''" "''layer''" "1::nat" "''name''"]
  by simp

section \<open>Worked example of the documentation\<close>

text \<open>
  C6: resolving the input shape \<open>[None, 3, 7]\<close> against the spec \<open>[DIM_SAME, DIM_REST]\<close>
  gives \<open>[DIM_SAME, 21]\<close> from \<open>_infer_unknown_dims\<close>, the wildcard resolved to 21 and the
  first entry left as the copied, unknown dimension; \<open>reshape\<close> then reads the first size
  from the graph and sets the static shape \<open>[None, 21]\<close>.
\<close>

theorem C6_example_none_3_7:
  "infer_unknown_dims [None, Some 3, Some 7] PyList [DIM_SAME, DIM_REST] = Inr [DIM_SAME, PyInt 21]
   \<and> reshape [None, Some 3, Some 7] PyList [DIM_SAME, DIM_REST]
       = Inr (Reshaped [TfGatherShape 0, TfConstant [PyInt 21]] [PyNone, PyInt 21])"
  by (simp add: reshape_def run_defs)

end
